theory Spec2Isabelle
  imports Complex_Main "HOL-Library.Multiset"
begin

section \<open>Errors\<close>

text \<open>
  The exceptions that the modelled Python can raise, together with the
  \<open>ConfigurationError\<close> that the specification speaks of.  No statement of the
  notebooks raises \<open>ConfigurationError\<close>; the constructor exists so that claims
  about it can be stated.
\<close>

datatype error = ConfigurationError | IndexError | ValueError | UnboundLocalError

section \<open>Labels and chunks\<close>

text \<open>
  The notebooks build the label and chunk arrays with
  \<^verbatim>\<open>labels = np.ravel([[['closed'] * 4, ['open'] * 4] for i in range(48)])\<close> and
  \<^verbatim>\<open>chunks = np.ravel([[i] * 64 for i in range(6)])\<close>.
  The Python building blocks are modelled one by one: \<open>range(n)\<close> (empty for
  \<open>n \<le> 0\<close>), list repetition \<open>xs * k\<close> (empty for \<open>k \<le> 0\<close>), and
  \<open>np.ravel\<close> of a rectangular nested list (row-major flattening).
\<close>

definition py_range :: "int \<Rightarrow> int list" where
  "py_range n = [0..n - 1]"

definition py_repeat :: "'a list \<Rightarrow> int \<Rightarrow> 'a list" where
  "py_repeat xs k = concat (replicate (nat k) xs)"

definition ravel2 :: "'a list list \<Rightarrow> 'a list" where
  "ravel2 xss = concat xss"

definition ravel3 :: "'a list list list \<Rightarrow> 'a list" where
  "ravel3 xsss = concat (concat xsss)"

text \<open>
  \<open>generate_labels\<close> is the label expression with its three literals (block length 4,
  the condition names, 48 cycles) as parameters; \<open>generate_chunks\<close> likewise for the
  chunk expression (run length 64, 6 chunks).  Neither expression has a failing
  branch, so both always return \<open>Inr\<close>.
\<close>

definition generate_labels :: "int \<Rightarrow> string list \<Rightarrow> int \<Rightarrow> error + string list" where
  "generate_labels block_size condition_sequence n_cycles =
     Inr (ravel3 (map (\<lambda>i. map (\<lambda>c. py_repeat [c] block_size) condition_sequence)
                      (py_range n_cycles)))"

definition generate_chunks :: "int \<Rightarrow> int \<Rightarrow> error + int list" where
  "generate_chunks chunk_size n_chunks =
     Inr (ravel2 (map (\<lambda>i. py_repeat [i] chunk_size) (py_range n_chunks)))"

definition labels :: "error + string list" where
  "labels = generate_labels 4 [''closed'', ''open''] 48"

definition chunks :: "error + int list" where
  "chunks = generate_chunks 64 6"

section \<open>Random train/test split\<close>

text \<open>
  The split cells of the notebook:
  \<^verbatim>\<open>from numpy.random import seed; seed(0)\<close> and then
  \<^verbatim>\<open>N = data.shape[0]; indices = np.arange(N); np.random.shuffle(indices)\<close>,
  \<^verbatim>\<open>N_80p = int(0.8 * N); indices_train = indices[:N_80p]; indices_test = indices[N_80p:]\<close>.

  NumPy's global generator is state that both cells touch, so it is threaded
  explicitly: \<open>'g\<close> is the type of generator states.  The library routines are
  parameters: \<open>seed\<close> maps a seed value to the generator state it installs, and
  \<open>shuffle\<close> takes the current state and a list and returns the shuffled list
  with the advanced state.

  \<open>int(x)\<close> truncates towards zero, and the slices \<open>xs[:c]\<close>, \<open>xs[c:]\<close> follow
  Python's rules for every integer \<open>c\<close> (a negative bound counts from the end, bounds
  are clamped to the list).  The literals 0.8 and 0 (the seed) are the parameters
  \<open>train_fraction\<close> and \<open>s\<close>.  The product \<open>train_fraction * N\<close> is a
  double-precision multiplication, whose rounding can move the truncated value
  (\<open>int(0.29 * 100)\<close> is 28); it is therefore the parameter \<open>fmul\<close>, which
  returns the value of the computed double for the fraction as written and \<open>N\<close>.
\<close>

type_synonym 'g shuffle = "'g \<Rightarrow> nat list \<Rightarrow> nat list \<times> 'g"

type_synonym float_product = "real \<Rightarrow> nat \<Rightarrow> real"

definition py_int :: "real \<Rightarrow> int" where
  "py_int x = (if 0 \<le> x then \<lfloor>x\<rfloor> else \<lceil>x\<rceil>)"

definition slice_bound :: "int \<Rightarrow> 'a list \<Rightarrow> nat" where
  "slice_bound c xs =
     (if c < 0 then nat (int (length xs) + c) else min (nat c) (length xs))"

definition slice_to :: "int \<Rightarrow> 'a list \<Rightarrow> 'a list" where
  "slice_to c xs = take (slice_bound c xs) xs"

definition slice_from :: "int \<Rightarrow> 'a list \<Rightarrow> 'a list" where
  "slice_from c xs = drop (slice_bound c xs) xs"

definition cut_index :: "float_product \<Rightarrow> real \<Rightarrow> nat \<Rightarrow> int" where
  "cut_index fmul train_fraction N = py_int (fmul train_fraction N)"

definition N_80p :: "float_product \<Rightarrow> nat \<Rightarrow> int" where
  "N_80p fmul N = cut_index fmul 0.8 N"

definition seed_cell :: "(nat \<Rightarrow> 'g) \<Rightarrow> nat \<Rightarrow> 'g \<Rightarrow> 'g" where
  "seed_cell seed s g = seed s"

definition split_cell ::
  "'g shuffle \<Rightarrow> float_product \<Rightarrow> real \<Rightarrow> nat \<Rightarrow> 'g
     \<Rightarrow> (nat list \<times> nat list) \<times> 'g" where
  "split_cell shuffle fmul train_fraction N g =
     (let (indices, g') = shuffle g [0..<N];
          c = cut_index fmul train_fraction N;
          indices_train = slice_to c indices;
          indices_test = slice_from c indices
      in ((indices_train, indices_test), g'))"

definition split_indices ::
  "(nat \<Rightarrow> 'g) \<Rightarrow> 'g shuffle \<Rightarrow> float_product \<Rightarrow> nat \<Rightarrow> real \<Rightarrow> nat \<Rightarrow> 'g
     \<Rightarrow> (nat list \<times> nat list) \<times> 'g" where
  "split_indices seed shuffle fmul N train_fraction s g =
     split_cell shuffle fmul train_fraction N (seed_cell seed s g)"

text \<open>The two cells as the notebook runs them: seed 0 and a cut at 80 percent.\<close>

definition notebook_split ::
  "(nat \<Rightarrow> 'g) \<Rightarrow> 'g shuffle \<Rightarrow> float_product \<Rightarrow> nat \<Rightarrow> 'g
     \<Rightarrow> (nat list \<times> nat list) \<times> 'g" where
  "notebook_split seed shuffle fmul N g = split_indices seed shuffle fmul N 0.8 0 g"




section \<open>Searchlight aggregation\<close>

text \<open>
  \<open>fill_in_scattered_results(sl, dataset, roi_ids, results)\<close> of the MVPA notebook.
  The arguments \<open>sl\<close> and \<open>roi_ids\<close> are never read and are left out.

  A neighbourhood result \<open>res\<close> is a dataset with \<open>len(res)\<close> samples of one
  feature, so \<open>res.samples\<close> is a column of \<open>len(res)\<close> scalars, and
  \<open>res.a.roi_feature_ids\<close> lists the feature indices (array positions, hence
  natural numbers) of the neighbourhood.  Of \<open>dataset\<close> only \<open>nfeatures\<close> and the
  optional \<open>mapper\<close> attribute are used.  Scalars are exact reals: the rounding of
  the floating-point additions and divisions is not modelled.  The observation
  counts are unbounded integers; a 64-bit counter cannot overflow on a results
  list that fits in memory.
\<close>

record roi_result =
  samples :: "real list"
  roi_feature_ids :: "nat list"

record 'm dataset =
  nfeatures :: nat
  mapper :: "'m option"

record accum =
  resmap :: "real list list"
  observ_counter :: "int list"

record 'm result_ds =
  ds_samples :: "real list list"
  observations :: "int list"
  ds_mapper :: "'m option"

text \<open>
  The container allocated when the first result is seen:
  \<^verbatim>\<open>resmap = np.zeros((len(res), dataset.nfeatures)); observ_counter = np.zeros(dataset.nfeatures, dtype=int)\<close>.
\<close>

definition init_accum :: "nat \<Rightarrow> roi_result \<Rightarrow> accum" where
  "init_accum nf res =
     \<lparr>resmap = replicate (length (samples res)) (replicate nf 0),
      observ_counter = replicate nf 0\<rparr>"

text \<open>
  Broadcasting of the column \<open>res.samples\<close> against the rows of \<open>resmap\<close>: a column
  with a single entry is stretched over all rows, otherwise row \<open>r\<close> receives entry
  \<open>r\<close>.
\<close>

definition chan :: "roi_result \<Rightarrow> nat \<Rightarrow> real" where
  "chan res r = (if length (samples res) = 1 then samples res ! 0 else samples res ! r)"

text \<open>
  \<^verbatim>\<open>resmap[:, res.a.roi_feature_ids] += res.samples\<close> followed by
  \<^verbatim>\<open>observ_counter[res.a.roi_feature_ids] += 1\<close>.
  Reading \<open>resmap[:, ids]\<close> raises \<open>IndexError\<close> for an index outside the array; the
  addition raises \<open>ValueError\<close> when the column neither has as many entries as
  \<open>resmap\<close> has rows nor a single one.  An in-place addition through an index array
  writes each selected position once, also when an index is repeated.
\<close>

definition add_result :: "nat \<Rightarrow> accum \<Rightarrow> roi_result \<Rightarrow> error + accum" where
  "add_result nf a res =
     (let ids = roi_feature_ids res; R = length (resmap a) in
      if \<exists>i \<in> set ids. nf \<le> i then Inl IndexError
      else if length (samples res) \<noteq> R \<and> length (samples res) \<noteq> 1 then Inl ValueError
      else Inr \<lparr>resmap =
                   map (\<lambda>r. map (\<lambda>j. if j \<in> set ids then resmap a ! r ! j + chan res r
                                       else resmap a ! r ! j) [0..<nf]) [0..<R],
                 observ_counter =
                   map (\<lambda>j. if j \<in> set ids then observ_counter a ! j + 1
                             else observ_counter a ! j) [0..<nf]\<rparr>)"

text \<open>One pass of the inner loop body; \<open>None\<close> is \<open>resmap is None\<close>.\<close>

definition step :: "nat \<Rightarrow> accum option \<Rightarrow> roi_result \<Rightarrow> error + accum" where
  "step nf st res =
     add_result nf (case st of None \<Rightarrow> init_accum nf res | Some a \<Rightarrow> a) res"

fun aggregate_block :: "nat \<Rightarrow> accum option \<Rightarrow> roi_result list \<Rightarrow> error + accum option" where
  "aggregate_block nf st [] = Inr st"
| "aggregate_block nf st (res # rest) =
     (case step nf st res of
        Inl e \<Rightarrow> Inl e
      | Inr a \<Rightarrow> aggregate_block nf (Some a) rest)"

fun aggregate :: "nat \<Rightarrow> accum option \<Rightarrow> roi_result list list \<Rightarrow> error + accum option" where
  "aggregate nf st [] = Inr st"
| "aggregate nf st (resblock # blocks) =
     (case aggregate_block nf st resblock of
        Inl e \<Rightarrow> Inl e
      | Inr st' \<Rightarrow> aggregate nf st' blocks)"

text \<open>
  \<^verbatim>\<open>observ_mask = observ_counter > 0; resmap[:, observ_mask] /= observ_counter[observ_mask]\<close>:
  in every row, the entries at positions with a positive count are divided by
  that count, the others stay.
\<close>

definition finalize :: "accum \<Rightarrow> accum" where
  "finalize a =
     a\<lparr>resmap :=
         map (\<lambda>row. map (\<lambda>(x, c). if c > 0 then x / real_of_int c else x)
                         (zip row (observ_counter a)))
             (resmap a)\<rparr>"

text \<open>
  The whole function.  With no result at all, \<open>observ_counter\<close> is still unbound
  when the mask is computed, which raises \<open>UnboundLocalError\<close>.
\<close>

definition fill_in_scattered_results ::
  "'m dataset \<Rightarrow> roi_result list list \<Rightarrow> error + 'm result_ds" where
  "fill_in_scattered_results dataset results =
     (case aggregate (nfeatures dataset) None results of
        Inl e \<Rightarrow> Inl e
      | Inr None \<Rightarrow> Inl UnboundLocalError
      | Inr (Some a) \<Rightarrow>
          (let a' = finalize a in
           Inr \<lparr>ds_samples = resmap a', observations = observ_counter a',
                ds_mapper = mapper dataset\<rparr>))"

text \<open>The results whose neighbourhood covers coordinate \<open>j\<close>, in evaluation order.\<close>

definition covering :: "nat \<Rightarrow> roi_result list \<Rightarrow> roi_result list" where
  "covering j rs = filter (\<lambda>res. j \<in> set (roi_feature_ids res)) rs"

text \<open>
  The accumulators seen through the lazily allocated state: before the first result
  there is no container, which counts as zero everywhere.  \<open>well_shaped\<close> says that
  an allocated container has \<open>nf\<close> columns.
\<close>

definition sum_at :: "accum option \<Rightarrow> nat \<Rightarrow> nat \<Rightarrow> real" where
  "sum_at st r j = (case st of None \<Rightarrow> 0 | Some a \<Rightarrow> resmap a ! r ! j)"

definition count_at :: "accum option \<Rightarrow> nat \<Rightarrow> int" where
  "count_at st j = (case st of None \<Rightarrow> 0 | Some a \<Rightarrow> observ_counter a ! j)"

definition well_shaped :: "nat \<Rightarrow> accum option \<Rightarrow> bool" where
  "well_shaped nf st =
     (case st of None \<Rightarrow> True
      | Some a \<Rightarrow> length (observ_counter a) = nf \<and> (\<forall>row \<in> set (resmap a). length row = nf))"

section \<open>Properties of labels and chunks\<close>

subsection \<open>Helper lemmas on ranges, repetition and flattening\<close>

lemma py_range_nat: "py_range (int n) = map int [0..<n]"
proof (induction n)
  case 0
  show ?case by (simp add: py_range_def)
next
  case (Suc n)
  have "[0..int (Suc n) - 1] = [0..int n - 1] @ [int n]"
    using upto_rec2 [of 0 "int n"] by simp
  with Suc show ?case by (simp add: py_range_def)
qed

lemma py_range_nonpos: "n \<le> 0 \<Longrightarrow> py_range n = []"
  by (simp add: py_range_def)

lemma py_range_eq: "py_range n = map int [0..<nat n]"
proof (cases "0 \<le> n")
  case True
  then show ?thesis using py_range_nat [of "nat n"] by simp
next
  case False
  then show ?thesis by (simp add: py_range_nonpos)
qed

lemma py_repeat_single: "py_repeat [c] k = replicate (nat k) c"
  unfolding py_repeat_def by (induction "nat k" arbitrary: k) (auto simp: replicate_add)

lemma length_concat_runs:
  "length (concat (map (\<lambda>i. replicate k (f i)) [0..<n])) = k * n"
  by (induction n) simp_all

lemma nth_concat_runs:
  "j < k * n \<Longrightarrow> concat (map (\<lambda>i. replicate k (f i)) [0..<n]) ! j = f (j div k)"
proof (induction n)
  case 0
  then show ?case by simp
next
  case (Suc n)
  have k: "0 < k" using Suc.prems by (cases k) auto
  show ?case
  proof (cases "j < k * n")
    case True
    then show ?thesis
      using Suc.IH by (simp add: nth_append length_concat_runs)
  next
    case False
    then have ge: "k * n \<le> j" by simp
    have "j div k = n"
    proof (rule antisym)
      show "j div k \<le> n"
        using Suc.prems k by (simp add: less_mult_imp_div_less mult.commute less_Suc_eq_le [symmetric])
      show "n \<le> j div k"
        using ge k by (metis div_le_mono nonzero_mult_div_cancel_left less_numeral_extra(3))
    qed
    moreover have "j - k * n < k" using Suc.prems ge by simp
    ultimately show ?thesis
      using False by (simp add: nth_append length_concat_runs)
  qed
qed

lemma length_concat_replicate: "length (concat (replicate n xs)) = n * length xs"
  by (induction n) simp_all

lemma nth_concat_replicate:
  "j < n * length xs \<Longrightarrow> concat (replicate n xs) ! j = xs ! (j mod length xs)"
proof (induction n arbitrary: j)
  case 0
  then show ?case by simp
next
  case (Suc n)
  show ?case
  proof (cases "j < length xs")
    case True
    then show ?thesis by (simp add: nth_append)
  next
    case False
    then have "j - length xs < n * length xs" using Suc.prems by simp
    from Suc.IH [OF this] False show ?thesis
      by (simp add: nth_append le_mod_geq)
  qed
qed

lemma concat_concat_replicate:
  "concat (concat (replicate n xss)) = concat (replicate n (concat xss))"
  by (induction n) simp_all

lemma labels_flat:
  "generate_labels bs cs n =
     Inr (concat (replicate (nat n) (concat (map (\<lambda>c. replicate (nat bs) c) cs))))"
  by (simp add: generate_labels_def ravel3_def py_repeat_single py_range_eq o_def
      map_replicate_const concat_concat_replicate)

lemma chunks_flat:
  "generate_chunks k n = Inr (concat (map (\<lambda>i. replicate (nat k) (int i)) [0..<nat n]))"
  by (simp add: generate_chunks_def ravel2_def py_repeat_single py_range_eq o_def)

lemma map_runs_nth:
  "map (\<lambda>c. replicate k c) cs = map (\<lambda>i. replicate k (cs ! i)) [0..<length cs]"
  by (simp add: map_equality_iff)

lemma div_mod_block: "0 < k \<Longrightarrow> (j mod (k * m)) div k = (j div k) mod (m::nat)"
  by (simp add: mod_mult2_eq)

lemma nth_label_blocks:
  assumes "0 < k" and "cs \<noteq> []" and "i < n * (k * length cs)"
  shows "concat (replicate n (concat (map (\<lambda>c. replicate k c) cs))) ! i
           = cs ! ((i div k) mod length cs)"
proof -
  define m where "m = length cs"
  define B where "B = concat (map (\<lambda>i. replicate k (cs ! i)) [0..<m])"
  have m: "0 < m" using assms by (simp add: m_def)
  have B_eq: "concat (map (\<lambda>c. replicate k c) cs) = B"
    unfolding B_def m_def by (subst map_runs_nth) simp
  have lenB: "length B = k * m" by (simp add: B_def length_concat_runs)
  have "i < n * length B" using assms lenB by (simp add: m_def)
  then have "concat (replicate n B) ! i = B ! (i mod (k * m))"
    by (simp add: nth_concat_replicate lenB)
  also have "i mod (k * m) < k * m" using assms(1) m by simp
  then have "B ! (i mod (k * m)) = cs ! ((i mod (k * m)) div k)"
    by (simp add: B_def nth_concat_runs)
  finally show ?thesis using assms(1) by (simp add: div_mod_block B_eq m_def)
qed

lemma length_label_blocks:
  "length (concat (replicate n (concat (map (\<lambda>c. replicate k c) cs)))) = n * (k * length cs)"
proof -
  have "length (concat (map (\<lambda>c. replicate k c) cs)) = k * length cs"
    by (subst map_runs_nth) (simp add: length_concat_runs)
  then show ?thesis by (simp add: length_concat_replicate)
qed

subsection \<open>Claims on labels and chunks\<close>

text \<open>
  C6.  For positive \<open>block_size\<close> and \<open>n_cycles\<close> and a non-empty
  \<open>condition_sequence\<close>, \<open>generate_labels\<close> returns \<open>n_cycles\<close> repetitions of the
  pattern in which each condition is repeated \<open>block_size\<close> times.  The result has
  length \<open>block_size * len(condition_sequence) * n_cycles\<close>, its element \<open>i\<close> is the
  condition number \<open>(i div block_size) mod len(condition_sequence)\<close>, and so every
  aligned run of \<open>block_size\<close> elements is constant.  In the notebook's configuration
  (4, closed/open, 48) the length is 384, elements \<open>[0:4]\<close> are all closed and
  elements \<open>[4:8]\<close> are all open.
\<close>

theorem generate_labels_blocks:
  "(0 < block_size \<and> condition_sequence \<noteq> [] \<and> 0 < n_cycles \<longrightarrow>
     (\<exists>ls. generate_labels block_size condition_sequence n_cycles = Inr ls
        \<and> ls = concat (replicate (nat n_cycles)
                 (concat (map (\<lambda>c. replicate (nat block_size) c) condition_sequence)))
        \<and> int (length ls) = block_size * int (length condition_sequence) * n_cycles
        \<and> (\<forall>i < length ls.
              ls ! i = condition_sequence ! ((i div nat block_size) mod length condition_sequence))
        \<and> (\<forall>q i. i < nat block_size \<longrightarrow> q * nat block_size + i < length ls \<longrightarrow>
              ls ! (q * nat block_size + i) = ls ! (q * nat block_size))))
   \<and> (\<exists>ls. labels = Inr ls \<and> length ls = 384
        \<and> take 4 ls = replicate 4 ''closed''
        \<and> take 4 (drop 4 ls) = replicate 4 ''open'')"
proof (intro conjI impI)
  assume valid: "0 < block_size \<and> condition_sequence \<noteq> [] \<and> 0 < n_cycles"
  define k where "k = nat block_size"
  define ls where "ls = concat (replicate (nat n_cycles)
                          (concat (map (\<lambda>c. replicate k c) condition_sequence)))"
  have k: "0 < k" using valid by (simp add: k_def)
  have gen: "generate_labels block_size condition_sequence n_cycles = Inr ls"
    by (simp add: labels_flat ls_def k_def)
  have len: "length ls = nat n_cycles * (k * length condition_sequence)"
    by (simp add: ls_def length_label_blocks)
  have ilen: "int (length ls) = block_size * int (length condition_sequence) * n_cycles"
    using valid by (simp add: len k_def)
  have nth: "ls ! i = condition_sequence ! ((i div k) mod length condition_sequence)"
    if "i < length ls" for i
    using that valid k unfolding ls_def len [unfolded ls_def]
    by (intro nth_label_blocks) simp_all
  have run: "ls ! (q * k + i) = ls ! (q * k)" if "i < k" "q * k + i < length ls" for q i
  proof -
    have "q * k < length ls" using that by simp
    moreover have "(q * k + i) div k = q" using that k by simp
    moreover have "(q * k) div k = q" using k by simp
    ultimately show ?thesis using nth that by simp
  qed
  show "\<exists>ls. generate_labels block_size condition_sequence n_cycles = Inr ls
        \<and> ls = concat (replicate (nat n_cycles)
                 (concat (map (\<lambda>c. replicate (nat block_size) c) condition_sequence)))
        \<and> int (length ls) = block_size * int (length condition_sequence) * n_cycles
        \<and> (\<forall>i < length ls.
              ls ! i = condition_sequence ! ((i div nat block_size) mod length condition_sequence))
        \<and> (\<forall>q i. i < nat block_size \<longrightarrow> q * nat block_size + i < length ls \<longrightarrow>
              ls ! (q * nat block_size + i) = ls ! (q * nat block_size))"
    using gen ilen nth run ls_def unfolding k_def by blast
next
  show "\<exists>ls. labels = Inr ls \<and> length ls = 384
        \<and> take 4 ls = replicate 4 ''closed''
        \<and> take 4 (drop 4 ls) = replicate 4 ''open''"
    by (simp add: labels_def labels_flat length_label_blocks eval_nat_numeral)
qed

theorem generate_labels_blocks_witness:
  "\<exists>ls. generate_labels 2 [''closed'', ''open''] 2 = Inr ls
     \<and> ls = [''closed'', ''closed'', ''open'', ''open'', ''closed'', ''closed'', ''open'', ''open'']
     \<and> int (length ls) = 2 * 2 * 2
     \<and> ls ! 5 = [''closed'', ''open''] ! ((5 div 2) mod 2)
     \<and> ls ! (1 * 2 + 1) = ls ! (1 * 2)"
proof -
  have valid: "(0::int) < 2 \<and> [''closed'', ''open''] \<noteq> [] \<and> (0::int) < 2" by simp
  from generate_labels_blocks [of 2 "[''closed'', ''open'']" 2] valid
  obtain ls where ls: "generate_labels 2 [''closed'', ''open''] 2 = Inr ls"
      "ls = concat (replicate (nat 2) (concat (map (\<lambda>c. replicate (nat 2) c) [''closed'', ''open''])))"
      "int (length ls) = 2 * int (length [''closed'', ''open'']) * 2"
    by blast
  from ls(2) have eq: "ls = [''closed'', ''closed'', ''open'', ''open'', ''closed'', ''closed'', ''open'', ''open'']"
    by (simp add: eval_nat_numeral)
  show ?thesis using ls(1) eq by simp
qed

text \<open>
  C7.  For positive \<open>chunk_size\<close> and \<open>n_chunks\<close>, \<open>generate_chunks\<close> returns a
  sequence of length \<open>chunk_size * n_chunks\<close> whose element \<open>i\<close> is
  \<open>i div chunk_size\<close>.  In the notebook's configuration (64, 6) the length is 384,
  elements \<open>[0:64]\<close> are all 0 and elements \<open>[64:128]\<close> are all 1.
\<close>

theorem generate_chunks_index:
  "(0 < chunk_size \<and> 0 < n_chunks \<longrightarrow>
     (\<exists>cs. generate_chunks chunk_size n_chunks = Inr cs
        \<and> int (length cs) = chunk_size * n_chunks
        \<and> (\<forall>i < length cs. cs ! i = int i div chunk_size)))
   \<and> (\<exists>cs. chunks = Inr cs \<and> length cs = 384
        \<and> take 64 cs = replicate 64 0
        \<and> take 64 (drop 64 cs) = replicate 64 1)"
proof (intro conjI impI)
  assume valid: "0 < chunk_size \<and> 0 < n_chunks"
  define k where "k = nat chunk_size"
  define cs where "cs = concat (map (\<lambda>i. replicate k (int i)) [0..<nat n_chunks])"
  have gen: "generate_chunks chunk_size n_chunks = Inr cs"
    by (simp add: chunks_flat cs_def k_def)
  have len: "length cs = k * nat n_chunks"
    by (simp add: cs_def length_concat_runs)
  have ilen: "int (length cs) = chunk_size * n_chunks"
    using valid by (simp add: len k_def)
  have nth: "cs ! i = int i div chunk_size" if "i < length cs" for i
  proof -
    have "cs ! i = int (i div k)"
      using that len by (simp add: cs_def nth_concat_runs)
    also have "\<dots> = int i div chunk_size"
      using valid by (simp add: k_def zdiv_int)
    finally show ?thesis .
  qed
  show "\<exists>cs. generate_chunks chunk_size n_chunks = Inr cs
        \<and> int (length cs) = chunk_size * n_chunks
        \<and> (\<forall>i < length cs. cs ! i = int i div chunk_size)"
    using gen ilen nth by blast
next
  have len: "length (concat (map (\<lambda>i. replicate 64 (int i)) [0..<6])) = 384"
    by (simp add: length_concat_runs)
  have six: "[0..<6] = [0, 1, 2, 3, 4, 5]"
    by (simp add: upt_rec)
  show "\<exists>cs. chunks = Inr cs \<and> length cs = 384
        \<and> take 64 cs = replicate 64 0
        \<and> take 64 (drop 64 cs) = replicate 64 1"
    using len by (simp add: chunks_def chunks_flat six)
qed

theorem generate_chunks_index_witness:
  "\<exists>cs. generate_chunks 2 3 = Inr cs \<and> cs = [0, 0, 1, 1, 2, 2]
     \<and> int (length cs) = 2 * 3 \<and> cs ! 5 = int 5 div 2"
proof -
  have valid: "(0::int) < 2 \<and> (0::int) < 3" by simp
  from generate_chunks_index [of 2 3] valid
  obtain cs where cs: "generate_chunks 2 3 = Inr cs" "int (length cs) = 2 * 3"
      "\<forall>i < length cs. cs ! i = int i div 2"
    by blast
  have "generate_chunks 2 3 = Inr [0, 0, 1, 1, 2, 2]"
    by (simp add: chunks_flat upt_rec eval_nat_numeral)
  with cs show ?thesis by simp
qed

text \<open>
  C8 (as the code behaves).  The label expression has no validation and no failing
  branch: when \<open>block_size\<close> or \<open>n_cycles\<close> is zero or negative, or
  \<open>condition_sequence\<close> is empty, \<open>generate_labels\<close> returns the empty sequence and
  raises nothing.
\<close>

theorem generate_labels_nonpositive_empty:
  "block_size \<le> 0 \<or> condition_sequence = [] \<or> n_cycles \<le> 0 \<Longrightarrow>
     generate_labels block_size condition_sequence n_cycles = Inr []"
  by (auto simp: labels_flat)

theorem generate_labels_nonpositive_empty_witness:
  "((-1::int) \<le> 0 \<or> [''closed'', ''open''] = [] \<or> (48::int) \<le> 0)
     \<and> generate_labels (-1) [''closed'', ''open''] 48 = Inr []"
  using generate_labels_nonpositive_empty [of "-1" "[''closed'', ''open'']" 48] by simp

theorem generate_labels_no_configuration_error:
  "(0::int) \<le> 0 \<and> generate_labels 0 [''closed'', ''open''] 48 = Inr []
     \<and> generate_labels 0 [''closed'', ''open''] 48 \<noteq> Inl ConfigurationError"
  by (simp add: generate_labels_def ravel3_def py_repeat_def)

section \<open>Properties of the train/test split\<close>








text \<open>
  C4.  The seeded split is deterministic.  Whatever state the global generator is in
  when the seed cell and the split cell are run, the same \<open>N\<close>, the same fraction and
  the same seed give the same train and test indices (and leave the same generator
  state); in particular a second run, started from the state the first run left
  behind, reproduces the first.  This holds for the notebook's own cells (seed 0,
  fraction 0.8) as an instance.
\<close>

theorem split_indices_deterministic:
  "split_indices seed shuffle fmul N train_fraction s g1
     = split_indices seed shuffle fmul N train_fraction s g2
   \<and> fst (split_indices seed shuffle fmul N train_fraction s
            (snd (split_indices seed shuffle fmul N train_fraction s g)))
       = fst (split_indices seed shuffle fmul N train_fraction s g)
   \<and> notebook_split seed shuffle fmul N g1 = notebook_split seed shuffle fmul N g2"
  by (simp add: notebook_split_def split_indices_def seed_cell_def)




section \<open>Properties of the searchlight aggregation\<close>

subsection \<open>One neighbourhood result\<close>

lemma add_result_Inr:
  assumes "add_result nf a res = Inr a'"
  shows "\<forall>i \<in> set (roi_feature_ids res). i < nf"
    and "length (samples res) = length (resmap a) \<or> length (samples res) = 1"
    and "resmap a' = map (\<lambda>r. map (\<lambda>j. if j \<in> set (roi_feature_ids res)
                                          then resmap a ! r ! j + chan res r
                                          else resmap a ! r ! j) [0..<nf])
                         [0..<length (resmap a)]"
    and "observ_counter a' = map (\<lambda>j. if j \<in> set (roi_feature_ids res)
                                       then observ_counter a ! j + 1
                                       else observ_counter a ! j) [0..<nf]"
  using assms by (auto simp: add_result_def Let_def split: if_splits)

lemma add_result_shape:
  assumes "add_result nf a res = Inr a'"
  shows "length (resmap a') = length (resmap a)"
    and "length (observ_counter a') = nf"
    and "r < length (resmap a) \<Longrightarrow> length (resmap a' ! r) = nf"
  using add_result_Inr(3,4) [OF assms] by simp_all

lemma add_result_nth:
  assumes "add_result nf a res = Inr a'" and "j < nf"
  shows "observ_counter a' ! j =
           observ_counter a ! j + (if j \<in> set (roi_feature_ids res) then 1 else 0)"
    and "r < length (resmap a) \<Longrightarrow>
           resmap a' ! r ! j =
           resmap a ! r ! j + (if j \<in> set (roi_feature_ids res) then chan res r else 0)"
  using add_result_Inr(3,4) [OF assms(1)] assms(2) by simp_all

lemma init_accum_nth:
  "length (resmap (init_accum nf res)) = length (samples res)"
  "j < nf \<Longrightarrow> observ_counter (init_accum nf res) ! j = 0"
  "r < length (samples res) \<Longrightarrow> j < nf \<Longrightarrow> resmap (init_accum nf res) ! r ! j = 0"
  by (simp_all add: init_accum_def)

subsection \<open>The loops\<close>

lemma covering_simps [simp]:
  "covering j [] = []"
  "covering j (res # rs) =
     (if j \<in> set (roi_feature_ids res) then res # covering j rs else covering j rs)"
  "covering j (rs @ rs') = covering j rs @ covering j rs'"
  by (simp_all add: covering_def)

lemma step_facts:
  assumes "step nf st res = Inr a'"
  shows "length (observ_counter a') = nf"
    and "\<forall>row \<in> set (resmap a'). length row = nf"
    and "st = Some a \<Longrightarrow> length (resmap a') = length (resmap a)"
    and "st = None \<Longrightarrow> length (resmap a') = length (samples res)"
    and "j < nf \<Longrightarrow> observ_counter a' ! j =
           count_at st j + (if j \<in> set (roi_feature_ids res) then 1 else 0)"
    and "j < nf \<Longrightarrow> r < length (resmap a') \<Longrightarrow> resmap a' ! r ! j =
           sum_at st r j + (if j \<in> set (roi_feature_ids res) then chan res r else 0)"
proof -
  define a0 where "a0 = (case st of None \<Rightarrow> init_accum nf res | Some a \<Rightarrow> a)"
  have ar: "add_result nf a0 res = Inr a'"
    using assms by (simp add: step_def a0_def)
  note sh = add_result_shape [OF ar]
  show "length (observ_counter a') = nf" by (rule sh(2))
  show "\<forall>row \<in> set (resmap a'). length row = nf"
    using sh(1,3) by (metis in_set_conv_nth)
  show "st = Some a \<Longrightarrow> length (resmap a') = length (resmap a)"
    using sh(1) by (simp add: a0_def)
  show "st = None \<Longrightarrow> length (resmap a') = length (samples res)"
    using sh(1) by (simp add: a0_def init_accum_nth)
  show "observ_counter a' ! j =
           count_at st j + (if j \<in> set (roi_feature_ids res) then 1 else 0)" if "j < nf"
    using add_result_nth(1) [OF ar that] that
    by (cases st) (simp_all add: a0_def count_at_def init_accum_nth)
  show "resmap a' ! r ! j =
           sum_at st r j + (if j \<in> set (roi_feature_ids res) then chan res r else 0)"
    if "j < nf" "r < length (resmap a')"
  proof -
    have r: "r < length (resmap a0)" using that sh(1) by simp
    show ?thesis
      using add_result_nth(2) [OF ar that(1) r] that r
      by (cases st) (simp_all add: a0_def sum_at_def init_accum_nth)
  qed
qed

lemma aggregate_block_inv:
  "aggregate_block nf st rs = Inr st' \<Longrightarrow>
     (st' = None \<longleftrightarrow> st = None \<and> rs = [])
   \<and> (well_shaped nf st \<longrightarrow> well_shaped nf st')
   \<and> (\<forall>a a'. st = Some a \<longrightarrow> st' = Some a' \<longrightarrow> length (resmap a') = length (resmap a))
   \<and> (\<forall>j<nf. count_at st' j = count_at st j + int (length (covering j rs)))
   \<and> (\<forall>j<nf. \<forall>a'. st' = Some a' \<longrightarrow> (\<forall>r<length (resmap a').
          sum_at st' r j = sum_at st r j + (\<Sum>res \<leftarrow> covering j rs. chan res r)))"
proof (induction rs arbitrary: st)
  case Nil
  then show ?case by auto
next
  case (Cons res rs)
  from Cons.prems obtain a1 where s: "step nf st res = Inr a1"
      and rest: "aggregate_block nf (Some a1) rs = Inr st'"
    by (auto split: sum.splits)
  note IH = Cons.IH [OF rest]
  from IH obtain a' where st': "st' = Some a'" by auto
  have len: "length (resmap a') = length (resmap a1)"
    using IH st' by simp
  have "well_shaped nf (Some a1)"
    using step_facts(1,2) [OF s] by (simp add: well_shaped_def)
  then have shape: "well_shaped nf st'" using IH by simp
  have keep: "length (resmap a') = length (resmap a)" if "st = Some a" for a
    using step_facts(3) [OF s that] len by simp
  have cnt: "count_at st' j = count_at st j + int (length (covering j (res # rs)))"
    if "j < nf" for j
  proof -
    have "count_at st' j = count_at (Some a1) j + int (length (covering j rs))"
      using IH that by simp
    moreover have "count_at (Some a1) j =
        count_at st j + (if j \<in> set (roi_feature_ids res) then 1 else 0)"
      using step_facts(5) [OF s that] by (simp add: count_at_def)
    ultimately show ?thesis by simp
  qed
  have sm: "sum_at st' r j = sum_at st r j + (\<Sum>res \<leftarrow> covering j (res # rs). chan res r)"
    if "j < nf" "r < length (resmap a')" for r j
  proof -
    have "sum_at st' r j = sum_at (Some a1) r j + (\<Sum>res \<leftarrow> covering j rs. chan res r)"
      using IH that st' by simp
    moreover have "sum_at (Some a1) r j =
        sum_at st r j + (if j \<in> set (roi_feature_ids res) then chan res r else 0)"
      using step_facts(6) [OF s that(1), of r] that(2) len by (simp add: sum_at_def)
    ultimately show ?thesis by simp
  qed
  show ?case using st' shape keep cnt sm by simp
qed

lemma aggregate_inv:
  "aggregate nf st results = Inr st' \<Longrightarrow>
     (st' = None \<longleftrightarrow> st = None \<and> concat results = [])
   \<and> (well_shaped nf st \<longrightarrow> well_shaped nf st')
   \<and> (\<forall>a a'. st = Some a \<longrightarrow> st' = Some a' \<longrightarrow> length (resmap a') = length (resmap a))
   \<and> (\<forall>j<nf. count_at st' j = count_at st j + int (length (covering j (concat results))))
   \<and> (\<forall>j<nf. \<forall>a'. st' = Some a' \<longrightarrow> (\<forall>r<length (resmap a').
          sum_at st' r j = sum_at st r j + (\<Sum>res \<leftarrow> covering j (concat results). chan res r)))"
proof (induction results arbitrary: st)
  case Nil
  then show ?case by auto
next
  case (Cons blk blocks)
  from Cons.prems obtain st1 where b: "aggregate_block nf st blk = Inr st1"
      and rest: "aggregate nf st1 blocks = Inr st'"
    by (auto split: sum.splits)
  note B = aggregate_block_inv [OF b]
  note IH = Cons.IH [OF rest]
  have none: "st' = None \<longleftrightarrow> st = None \<and> concat (blk # blocks) = []"
    using B IH by auto
  have shape: "well_shaped nf st \<longrightarrow> well_shaped nf st'"
    using B IH by simp
  have keep: "length (resmap a') = length (resmap a)" if "st = Some a" "st' = Some a'" for a a'
  proof -
    from that(1) B obtain a1 where a1: "st1 = Some a1" by (cases st1) auto
    then have "length (resmap a1) = length (resmap a)" using B that(1) by simp
    moreover have "length (resmap a') = length (resmap a1)" using IH a1 that(2) by simp
    ultimately show ?thesis by simp
  qed
  have cnt: "count_at st' j = count_at st j + int (length (covering j (concat (blk # blocks))))"
    if "j < nf" for j
  proof -
    have "count_at st' j = count_at st1 j + int (length (covering j (concat blocks)))"
      using IH that by simp
    moreover have "count_at st1 j = count_at st j + int (length (covering j blk))"
      using B that by simp
    ultimately show ?thesis by simp
  qed
  have sm: "sum_at st' r j =
      sum_at st r j + (\<Sum>res \<leftarrow> covering j (concat (blk # blocks)). chan res r)"
    if "j < nf" "st' = Some a'" "r < length (resmap a')" for r j a'
  proof -
    have 1: "sum_at st' r j = sum_at st1 r j + (\<Sum>res \<leftarrow> covering j (concat blocks). chan res r)"
      using IH that by simp
    have 2: "sum_at st1 r j = sum_at st r j + (\<Sum>res \<leftarrow> covering j blk. chan res r)"
    proof (cases st1)
      case None
      then have "st = None \<and> blk = []" using B by simp
      then show ?thesis using None by simp
    next
      case (Some a1)
      then have "length (resmap a') = length (resmap a1)" using IH that(2) by simp
      then show ?thesis using B Some that by simp
    qed
    show ?thesis using 1 2 by simp
  qed
  show ?case using none shape keep cnt sm by blast
qed

lemma aggregate_None:
  assumes "aggregate nf None results = Inr (Some a)"
  shows "concat results \<noteq> []"
    and "length (observ_counter a) = nf"
    and "r < length (resmap a) \<Longrightarrow> length (resmap a ! r) = nf"
    and "j < nf \<Longrightarrow> observ_counter a ! j = int (length (covering j (concat results)))"
    and "j < nf \<Longrightarrow> r < length (resmap a) \<Longrightarrow>
           resmap a ! r ! j = (\<Sum>res \<leftarrow> covering j (concat results). chan res r)"
proof -
  note A = aggregate_inv [OF assms]
  show "concat results \<noteq> []" using A by simp
  have ws: "well_shaped nf (Some a)" using A by (simp add: well_shaped_def)
  then show "length (observ_counter a) = nf" by (simp add: well_shaped_def)
  show "r < length (resmap a) \<Longrightarrow> length (resmap a ! r) = nf"
    using ws by (simp add: well_shaped_def)
  show "j < nf \<Longrightarrow> observ_counter a ! j = int (length (covering j (concat results)))"
    using A by (simp add: count_at_def)
  show "j < nf \<Longrightarrow> r < length (resmap a) \<Longrightarrow>
           resmap a ! r ! j = (\<Sum>res \<leftarrow> covering j (concat results). chan res r)"
    using A by (simp add: sum_at_def)
qed

subsection \<open>Finalisation\<close>


lemma finalize_keeps:
  "observ_counter (finalize a) = observ_counter a"
  "length (resmap (finalize a)) = length (resmap a)"
  by (simp_all add: finalize_def)

lemma fill_Inr:
  assumes "fill_in_scattered_results dataset results = Inr out"
  obtains a where "aggregate (nfeatures dataset) None results = Inr (Some a)"
    and "ds_samples out = resmap (finalize a)"
    and "observations out = observ_counter a"
    and "ds_mapper out = mapper dataset"
  using assms
  by (auto simp: fill_in_scattered_results_def Let_def finalize_keeps
           split: sum.splits option.splits)




lemma aggregate_no_results:
  "concat results = [] \<Longrightarrow> aggregate nf st results = Inr st"
  by (induction results) simp_all

subsection \<open>Claims on the aggregation\<close>







text \<open>
  C10.  The accumulators are allocated on the first result seen.  When the results
  hold no neighbourhood result at all (no block, or only empty blocks), nothing is
  allocated and the function fails with \<open>UnboundLocalError\<close> at the finalising step
  instead of returning zero-filled maps; so whenever it returns, there was at least
  one result.
\<close>

theorem no_results_unbound:
  "fill_in_scattered_results dataset [] = Inl UnboundLocalError
   \<and> (concat results = [] \<longrightarrow>
        aggregate (nfeatures dataset) None results = Inr None
      \<and> fill_in_scattered_results dataset results = Inl UnboundLocalError)
   \<and> (fill_in_scattered_results dataset results = Inr out \<longrightarrow> concat results \<noteq> [])"
proof (intro conjI impI)
  show "fill_in_scattered_results dataset [] = Inl UnboundLocalError"
    by (simp add: fill_in_scattered_results_def)
next
  assume e: "concat results = []"
  then show "aggregate (nfeatures dataset) None results = Inr None"
    by (rule aggregate_no_results)
  then show "fill_in_scattered_results dataset results = Inl UnboundLocalError"
    by (simp add: fill_in_scattered_results_def)
next
  assume "fill_in_scattered_results dataset results = Inr out"
  then obtain a where "aggregate (nfeatures dataset) None results = Inr (Some a)"
    by (rule fill_Inr)
  then show "concat results \<noteq> []" by (rule aggregate_None(1))
qed

theorem no_results_unbound_witness:
  "concat [[], [] :: roi_result list] = []
   \<and> fill_in_scattered_results \<lparr>nfeatures = 2, mapper = (None :: unit option)\<rparr> [[], []] = Inl UnboundLocalError
   \<and> fill_in_scattered_results \<lparr>nfeatures = 2, mapper = (None :: unit option)\<rparr>
        [[], [\<lparr>samples = [1], roi_feature_ids = [1]\<rparr>]]
       = Inr \<lparr>ds_samples = [[0, 1]], observations = [0, 1], ds_mapper = (None :: unit option)\<rparr>
   \<and> concat [[], [\<lparr>samples = [1], roi_feature_ids = [1]\<rparr>]] \<noteq> []"
proof -
  have two: "[0..<2] = [0, 1]" "[0..<Suc 0] = [0]"
    by (simp_all add: upt_rec)
  have f: "fill_in_scattered_results \<lparr>nfeatures = 2, mapper = (None :: unit option)\<rparr>
        [[], [\<lparr>samples = [1], roi_feature_ids = [1]\<rparr>]]
       = Inr \<lparr>ds_samples = [[0, 1]], observations = [0, 1], ds_mapper = (None :: unit option)\<rparr>"
    by (simp add: fill_in_scattered_results_def step_def add_result_def init_accum_def
        chan_def finalize_def two)
  have e: "concat [[], [] :: roi_result list] = []" by simp
  from no_results_unbound [of "\<lparr>nfeatures = 2, mapper = (None :: unit option)\<rparr>" "[[], []]"] e
  have u: "fill_in_scattered_results \<lparr>nfeatures = 2, mapper = (None :: unit option)\<rparr> [[], []] = Inl UnboundLocalError"
    by blast
  from no_results_unbound [of "\<lparr>nfeatures = 2, mapper = (None :: unit option)\<rparr>"
      "[[], [\<lparr>samples = [1], roi_feature_ids = [1]\<rparr>]]"
      "\<lparr>ds_samples = [[0, 1]], observations = [0, 1], ds_mapper = (None :: unit option)\<rparr>"] f
  have "concat [[], [\<lparr>samples = [1], roi_feature_ids = [1]\<rparr>]] \<noteq> []" by blast
  then show ?thesis using f u e by blast
qed

end
